theory Spec2Isabelle
  imports
    Main
    "HOL-Library.Multiset"
    "HOL-Library.Sublist"
    "HOL-Library.Char_ord"
    "HOL-Library.List_Lexorder"
begin

section \<open>goup: dependency records, filtering and ordering\<close>

text \<open>
  The Go struct \<^verbatim>\<open>dependency.Dependency\<close> (the variant with update information).
  Go strings are byte sequences and compare bytewise, shorter prefix first; in this theory
  \<^typ>\<open>string\<close> is a list of 8-bit characters ordered by their code
  (\<open>Char_ord\<close>) and lists are ordered lexicographically (\<open>List_Lexorder\<close>), which is
  the same order.
\<close>

record Dependency =
  Path :: string
  Version :: string
  NewVersion :: string
  Indirect :: bool
  HasUpdate :: bool

subsection \<open>FilterDependencies (internal/dependency/manager.go)\<close>

text \<open>
  \<^verbatim>\<open>
  func (m *manager) FilterDependencies(deps []Dependency, includeIndirect bool) []Dependency {
      if includeIndirect { return deps }
      var filtered []Dependency
      for _, dep := range deps {
          if !dep.Indirect { filtered = append(filtered, dep) }
      }
      return filtered
  }
  \<close>
  The loop is a recursion over the remaining records that carries \<open>filtered\<close>.
\<close>

fun FilterDependencies_loop :: "Dependency list \<Rightarrow> Dependency list \<Rightarrow> Dependency list" where
  "FilterDependencies_loop [] filtered = filtered"
| "FilterDependencies_loop (dep # deps) filtered =
     FilterDependencies_loop deps (if \<not> Indirect dep then filtered @ [dep] else filtered)"

definition FilterDependencies :: "Dependency list \<Rightarrow> bool \<Rightarrow> Dependency list" where
  "FilterDependencies deps includeIndirect =
     (if includeIndirect then deps else FilterDependencies_loop deps [])"

subsection \<open>sortDependencies\<close>

text \<open>
  \<^verbatim>\<open>
  func (m *manager) sortDependencies(deps []Dependency) {
      sort.Slice(deps, func(i, j int) bool {
          depA, depB := deps[i], deps[j]
          if depA.Indirect != depB.Indirect { return !depA.Indirect }
          return depA.Path < depB.Path
      })
  }
  \<close>
  \<open>sortDependencies_less\<close> is the comparison closure, on the two records it reads.
\<close>

definition sortDependencies_less :: "Dependency \<Rightarrow> Dependency \<Rightarrow> bool" where
  "sortDependencies_less depA depB =
     (if Indirect depA \<noteq> Indirect depB then \<not> Indirect depA else Path depA < Path depB)"

text \<open>
  \<^verbatim>\<open>sort.Slice\<close> belongs to Go's standard library, which promises a rearrangement
  in which no element is less than an earlier one. It is modelled by the library's
  insertion sort (the algorithm it runs on slices of at most 12 elements):
  \<^verbatim>\<open>
  for i := a + 1; i < b; i++ {
      for j := i; j > a && less(data[j], data[j-1]); j-- { swap(j, j-1) }
  }
  \<close>
  \<open>sink\<close> is the inner loop: it moves the new element \<open>x\<close> to the left past every
  predecessor that it is less than. The processed prefix is kept reversed, so that its
  head is \<open>data[j-1]\<close>.
\<close>

fun sink :: "('a \<Rightarrow> 'a \<Rightarrow> bool) \<Rightarrow> 'a \<Rightarrow> 'a list \<Rightarrow> 'a list" where
  "sink lt x [] = [x]"
| "sink lt x (y # ys) = (if lt x y then y # sink lt x ys else x # y # ys)"

definition sort_Slice :: "('a \<Rightarrow> 'a \<Rightarrow> bool) \<Rightarrow> 'a list \<Rightarrow> 'a list" where
  "sort_Slice lt xs = rev (foldl (\<lambda>prefix x. sink lt x prefix) [] xs)"

definition sortDependencies :: "Dependency list \<Rightarrow> Dependency list" where
  "sortDependencies deps = sort_Slice sortDependencies_less deps"

text \<open>
  The comparison of \<open>sortDependencies\<close> is the strict order of the key
  (indirect flag, path), compared flag first with \<open>False\<close> before \<open>True\<close>.
\<close>

datatype depKey = DepKey bool string

instantiation depKey :: linorder
begin

fun less_eq_depKey :: "depKey \<Rightarrow> depKey \<Rightarrow> bool" where
  "less_eq_depKey (DepKey i p) (DepKey j q) = (if i \<noteq> j then \<not> i else p \<le> q)"

fun less_depKey :: "depKey \<Rightarrow> depKey \<Rightarrow> bool" where
  "less_depKey (DepKey i p) (DepKey j q) = (if i \<noteq> j then \<not> i else p < q)"

instance
proof
  fix x y z :: depKey
  show "(x < y) = (x \<le> y \<and> \<not> y \<le> x)"
    by (cases x; cases y) auto
  show "x \<le> x"
    by (cases x) simp
  show "x \<le> y \<Longrightarrow> y \<le> z \<Longrightarrow> x \<le> z"
    by (cases x; cases y; cases z) (auto split: if_splits)
  show "x \<le> y \<Longrightarrow> y \<le> x \<Longrightarrow> x = y"
    by (cases x; cases y) (auto split: if_splits)
  show "x \<le> y \<or> y \<le> x"
    by (cases x; cases y) auto
qed

end

definition depKeyOf :: "Dependency \<Rightarrow> depKey" where
  "depKeyOf d = DepKey (Indirect d) (Path d)"

text \<open>
  The earlier variant of the manager sorts by path alone
  (\<^verbatim>\<open>sort.Slice(updatable, func(i, j int) bool { return updatable[i].Path < updatable[j].Path })\<close>).
\<close>

definition sortByPath :: "Dependency list \<Rightarrow> Dependency list" where
  "sortByPath deps = sort_Slice (\<lambda>depA depB. Path depA < Path depB) deps"

section \<open>goup: the updater (internal/updater)\<close>

text \<open>
  \<^verbatim>\<open>UpdateError{Dependency, Error}\<close> and \<^verbatim>\<open>UpdateResult{Updated, Failed, Success}\<close>
  of the updater's interface. The Go \<^verbatim>\<open>error\<close> returned by a command is a value of a
  type \<open>'e\<close>; \<open>nil\<close> is \<open>None\<close>.
\<close>

record 'e UpdateError =
  Dependency :: Dependency
  Error :: 'e

record 'e UpdateResult =
  Updated :: "Dependency list"
  Failed :: "'e UpdateError list"
  Success :: bool

text \<open>
  \<^verbatim>\<open>CommandRunner.Run(name, args, verbose) error\<close> runs an external command. It is a
  function of the state \<open>'w\<close> of the world outside the program, which it may change.
\<close>

datatype command = Command string "string list" bool

type_synonym ('e, 'w) CommandRunner = "'w \<Rightarrow> string \<Rightarrow> string list \<Rightarrow> bool \<Rightarrow> 'e option \<times> 'w"

text \<open>
  \<^verbatim>\<open>
  func (u *goUpdater) UpdateDependencies(deps []dependency.Dependency, verbose bool) UpdateResult {
      result := UpdateResult{Updated: make([]dependency.Dependency, 0), Failed: make([]UpdateError, 0)}
      for _, dep := range deps {
          err := u.commandRunner.Run("go", []string{"get", "-u", dep.Path}, verbose)
          if err != nil {
              result.Failed = append(result.Failed, UpdateError{Dependency: dep, Error: err})
          } else {
              result.Updated = append(result.Updated, dep)
          }
      }
      result.Success = len(result.Failed) == 0
      return result
  }
  \<close>
\<close>

fun UpdateDependencies_loop ::
  "('e, 'w) CommandRunner \<Rightarrow> bool \<Rightarrow> Dependency list \<Rightarrow> 'e UpdateResult \<Rightarrow> 'w \<Rightarrow> 'e UpdateResult \<times> 'w"
where
  "UpdateDependencies_loop run verbose [] result w = (result, w)"
| "UpdateDependencies_loop run verbose (dep # deps) result w =
     (case run w ''go'' [''get'', ''-u'', Path dep] verbose of
        (Some err, w') \<Rightarrow>
          UpdateDependencies_loop run verbose deps
            (result\<lparr>Failed := Failed result @ [\<lparr>Dependency = dep, UpdateError.Error = err\<rparr>]\<rparr>) w'
      | (None, w') \<Rightarrow>
          UpdateDependencies_loop run verbose deps
            (result\<lparr>Updated := Updated result @ [dep]\<rparr>) w')"

definition UpdateDependencies ::
  "('e, 'w) CommandRunner \<Rightarrow> Dependency list \<Rightarrow> bool \<Rightarrow> 'w \<Rightarrow> 'e UpdateResult \<times> 'w"
where
  "UpdateDependencies run deps verbose w =
     (case UpdateDependencies_loop run verbose deps \<lparr>Updated = [], Failed = [], Success = False\<rparr> w of
        (result, w') \<Rightarrow> (result\<lparr>Success := (length (Failed result) = 0)\<rparr>, w'))"

text \<open>
  To speak about which commands were attempted, \<open>recording run\<close> is the runner \<open>run\<close>
  that also appends every command it is given to a log kept beside the world.
\<close>

definition recording :: "('e, 'w) CommandRunner \<Rightarrow> ('e, 'w \<times> command list) CommandRunner" where
  "recording run = (\<lambda>(w, log) name args verbose.
     (case run w name args verbose of (r, w') \<Rightarrow> (r, (w', log @ [Command name args verbose]))))"

text \<open>
  \<^verbatim>\<open>
  func (a *App) updateWithProgress(deps []dependency.Dependency) updater.UpdateResult {
      var allResults []updater.UpdateResult
      for i, dep := range deps {
          a.console.ProgressBar(i, len(deps), dep.Path)
          singleResult := a.updater.UpdateDependencies([]dependency.Dependency{dep}, a.config.Verbose)
          allResults = append(allResults, singleResult)
          a.console.ProgressBar(i+1, len(deps), dep.Path)
      }
      finalResult := updater.UpdateResult{Updated: ..., Failed: ..., Success: true}
      for _, result := range allResults {
          finalResult.Updated = append(finalResult.Updated, result.Updated...)
          finalResult.Failed = append(finalResult.Failed, result.Failed...)
          if !result.Success { finalResult.Success = false }
      }
      return finalResult
  }
  \<close>
  \<open>upd\<close> is \<^verbatim>\<open>a.updater.UpdateDependencies\<close>, \<open>verbose\<close> is \<^verbatim>\<open>a.config.Verbose\<close>, and
  the calls of the console are collected in a list.
\<close>

datatype console_event = ProgressBar int int string

type_synonym ('e, 'w) Updater = "Dependency list \<Rightarrow> bool \<Rightarrow> 'w \<Rightarrow> 'e UpdateResult \<times> 'w"

fun updateWithProgress_loop ::
  "('e, 'w) Updater \<Rightarrow> bool \<Rightarrow> int \<Rightarrow> int \<Rightarrow> Dependency list \<Rightarrow> 'e UpdateResult list \<Rightarrow> 'w \<Rightarrow>
     console_event list \<Rightarrow> 'e UpdateResult list \<times> 'w \<times> console_event list"
where
  "updateWithProgress_loop upd verbose n i [] allResults w console = (allResults, w, console)"
| "updateWithProgress_loop upd verbose n i (dep # deps) allResults w console =
     (case upd [dep] verbose w of
        (singleResult, w') \<Rightarrow>
          updateWithProgress_loop upd verbose n (i + 1) deps (allResults @ [singleResult]) w'
            (console @ [ProgressBar i n (Path dep), ProgressBar (i + 1) n (Path dep)]))"

fun updateWithProgress_merge :: "'e UpdateResult list \<Rightarrow> 'e UpdateResult \<Rightarrow> 'e UpdateResult" where
  "updateWithProgress_merge [] finalResult = finalResult"
| "updateWithProgress_merge (result # allResults) finalResult =
     updateWithProgress_merge allResults
       (finalResult\<lparr>Updated := Updated finalResult @ Updated result,
                     Failed := Failed finalResult @ Failed result,
                     Success := (if \<not> Success result then False else Success finalResult)\<rparr>)"

definition updateWithProgress ::
  "('e, 'w) Updater \<Rightarrow> bool \<Rightarrow> Dependency list \<Rightarrow> 'w \<Rightarrow> console_event list \<Rightarrow>
     'e UpdateResult \<times> 'w \<times> console_event list"
where
  "updateWithProgress upd verbose deps w console =
     (case updateWithProgress_loop upd verbose (int (length deps)) 0 deps [] w console of
        (allResults, w', console') \<Rightarrow>
          (updateWithProgress_merge allResults \<lparr>Updated = [], Failed = [], Success = True\<rparr>, w', console'))"

text \<open>The command that updates one record: \<^verbatim>\<open>go get -u <path>\<close>.\<close>

definition getCommand :: "bool \<Rightarrow> Dependency \<Rightarrow> command" where
  "getCommand verbose dep = Command ''go'' [''get'', ''-u'', Path dep] verbose"


section \<open>goup: the selector (internal/selector/selector.go)\<close>

subsection \<open>Library functions on strings\<close>

text \<open>
  The parser uses \<^verbatim>\<open>strings.TrimSpace\<close>, \<^verbatim>\<open>strings.ToLower\<close>, \<^verbatim>\<open>strings.Contains\<close>,
  \<^verbatim>\<open>strings.Index\<close>, \<^verbatim>\<open>strings.Split\<close> and \<^verbatim>\<open>strconv.Atoi\<close> of Go's standard
  library. They are modelled on byte strings with their behaviour on ASCII text: white
  space is tab, line feed, vertical tab, form feed, carriage return and space; lower-casing
  maps \<open>A\<close>..\<open>Z\<close> to \<open>a\<close>..\<open>z\<close> and leaves every other byte.
\<close>

definition isSpace :: "char \<Rightarrow> bool" where
  "isSpace c \<longleftrightarrow> c \<in> set [CHR 0x09, CHR 0x0A, CHR 0x0B, CHR 0x0C, CHR 0x0D, CHR '' '']"

definition TrimSpace :: "string \<Rightarrow> string" where
  "TrimSpace s = rev (dropWhile isSpace (rev (dropWhile isSpace s)))"

definition toLowerByte :: "char \<Rightarrow> char" where
  "toLowerByte c = (if CHR ''A'' \<le> c \<and> c \<le> CHR ''Z'' then char_of (of_char c + (32::nat)) else c)"

definition ToLower :: "string \<Rightarrow> string" where
  "ToLower s = map toLowerByte s"

text \<open>
  \<^verbatim>\<open>strings.Index(s, substr)\<close>: the index of the first occurrence of \<open>substr\<close> in \<open>s\<close>,
  or \<open>-1\<close>; \<^verbatim>\<open>strings.Contains(s, substr)\<close> is \<^verbatim>\<open>Index(s, substr) >= 0\<close>.
\<close>

fun Index :: "string \<Rightarrow> string \<Rightarrow> int" where
  "Index [] substr = (if substr = [] then 0 else - 1)"
| "Index (c # s) substr =
     (if prefix substr (c # s) then 0
      else (let i = Index s substr in if i = - 1 then - 1 else i + 1))"

definition Contains :: "string \<Rightarrow> string \<Rightarrow> bool" where
  "Contains s substr \<longleftrightarrow> Index s substr \<ge> 0"

text \<open>
  \<^verbatim>\<open>strings.Split(s, sep)\<close> for a separator of one byte (the code splits on \<open>,\<close>, \<open>-\<close>
  and \<open>*\<close>): the pieces between the separators, one more than there are separators.
\<close>

fun Split :: "string \<Rightarrow> char \<Rightarrow> string list" where
  "Split [] sep = [[]]"
| "Split (c # s) sep =
     (if c = sep then [] # Split s sep
      else (let r = Split s sep in (c # hd r) # tl r))"

text \<open>
  \<^verbatim>\<open>strconv.Atoi(s)\<close>: an optional sign, then one or more decimal digits; a value outside
  the range of a 64-bit \<^verbatim>\<open>int\<close> is an error, like any other malformed text.
\<close>

definition isDigit :: "char \<Rightarrow> bool" where
  "isDigit c \<longleftrightarrow> CHR ''0'' \<le> c \<and> c \<le> CHR ''9''"

definition Atoi :: "string \<Rightarrow> int option" where
  "Atoi s =
     (let signed = (s \<noteq> [] \<and> (hd s = CHR ''-'' \<or> hd s = CHR ''+''));
          body = (if signed then tl s else s)
      in if body = [] \<or> \<not> list_all isDigit body then None
         else (let n = foldl (\<lambda>n ch. n * 10 + (int (of_char ch) - 48)) 0 body;
                   v = (if hd s = CHR ''-'' then - n else n)
               in if v < - (2 ^ 63) \<or> 2 ^ 63 - 1 < v then None else Some v))"

subsection \<open>The selection parser\<close>

text \<open>
  The errors the selector builds with \<^verbatim>\<open>fmt.Errorf\<close>, by message, with the values they
  are formatted from:
  \<^verbatim>\<open>"number %d is out of range (1-%d)"\<close>, \<^verbatim>\<open>"no dependencies match pattern: %s"\<close>,
  \<^verbatim>\<open>"invalid range format: %s"\<close>, \<^verbatim>\<open>"invalid start number in range: %s"\<close>,
  \<^verbatim>\<open>"invalid end number in range: %s"\<close>, \<^verbatim>\<open>"range %d-%d is out of bounds (1-%d)"\<close>,
  \<^verbatim>\<open>"reading input: %w"\<close>. \<open>InputFailure\<close> stands for an error of the input stream.
\<close>

datatype error =
    NumberOutOfRange int int
  | NoMatch string
  | InvalidRangeFormat string
  | InvalidStartNumber string
  | InvalidEndNumber string
  | RangeOutOfBounds int int int
  | ReadingInput error
  | InputFailure string

text \<open>
  \<^verbatim>\<open>
  func containsDependency(slice []dependency.Dependency, dep dependency.Dependency) bool {
      for _, item := range slice {
          if item.Path == dep.Path { return true }
      }
      return false
  }
  \<close>
\<close>

fun containsDependency :: "Dependency list \<Rightarrow> Dependency \<Rightarrow> bool" where
  "containsDependency [] dep = False"
| "containsDependency (item # slice) dep =
     (if Path item = Path dep then True else containsDependency slice dep)"

text \<open>
  \<^verbatim>\<open>
  func matchesPattern(path, pattern string) bool {
      if !strings.Contains(pattern, "*") { return strings.Contains(path, pattern) }
      parts := strings.Split(pattern, "*")
      index := 0
      for _, part := range parts {
          if part == "" { continue }
          newIndex := strings.Index(path[index:], part)
          if newIndex == -1 { return false }
          index += newIndex + len(part)
      }
      return true
  }
  \<close>
  \<open>index\<close> never exceeds the length of \<open>path\<close> (lemma \<open>Index_bound\<close> below), so the
  slice \<^verbatim>\<open>path[index:]\<close> is \<open>drop index path\<close>.
\<close>

fun matchesPattern_loop :: "string \<Rightarrow> string list \<Rightarrow> int \<Rightarrow> bool" where
  "matchesPattern_loop path [] index = True"
| "matchesPattern_loop path (part # parts) index =
     (if part = [] then matchesPattern_loop path parts index
      else (let newIndex = Index (drop (nat index) path) part
            in if newIndex = - 1 then False
               else matchesPattern_loop path parts (index + newIndex + int (length part))))"

definition matchesPattern :: "string \<Rightarrow> string \<Rightarrow> bool" where
  "matchesPattern path pattern =
     (if \<not> Contains pattern ''*'' then Contains path pattern
      else matchesPattern_loop path (Split pattern (CHR ''*'')) 0)"

text \<open>
  \<^verbatim>\<open>
  func (p *selectionParser) matchPattern(pattern string, deps []dependency.Dependency,
                                         selected *[]dependency.Dependency) bool {
      matched := false
      for _, dep := range deps {
          if matchesPattern(strings.ToLower(dep.Path), pattern) {
              if !containsDependency(*selected, dep) {
                  *selected = append(*selected, dep)
                  matched = true
              }
          }
      }
      return matched
  }
  \<close>
  The slice behind the pointer is returned with the flag.
\<close>

fun matchPattern_loop ::
  "string \<Rightarrow> Dependency list \<Rightarrow> Dependency list \<Rightarrow> bool \<Rightarrow> bool \<times> Dependency list" where
  "matchPattern_loop pattern [] selected matched = (matched, selected)"
| "matchPattern_loop pattern (dep # deps) selected matched =
     (if matchesPattern (ToLower (Path dep)) pattern then
        (if \<not> containsDependency selected dep
         then matchPattern_loop pattern deps (selected @ [dep]) True
         else matchPattern_loop pattern deps selected matched)
      else matchPattern_loop pattern deps selected matched)"

definition matchPattern :: "string \<Rightarrow> Dependency list \<Rightarrow> Dependency list \<Rightarrow> bool \<times> Dependency list" where
  "matchPattern pattern deps selected = matchPattern_loop pattern deps selected False"

text \<open>
  \<^verbatim>\<open>
  func (p *selectionParser) parseRange(part string, deps []dependency.Dependency) ([]dependency.Dependency, error) {
      rangeParts := strings.Split(part, "-")
      if len(rangeParts) != 2 { return nil, fmt.Errorf("invalid range format: %s", part) }
      start, err := strconv.Atoi(strings.TrimSpace(rangeParts[0]))
      if err != nil { return nil, fmt.Errorf("invalid start number in range: %s", rangeParts[0]) }
      end, err := strconv.Atoi(strings.TrimSpace(rangeParts[1]))
      if err != nil { return nil, fmt.Errorf("invalid end number in range: %s", rangeParts[1]) }
      if start < 1 || end > len(deps) || start > end {
          return nil, fmt.Errorf("range %d-%d is out of bounds (1-%d)", start, end, len(deps))
      }
      var rangeDeps []dependency.Dependency
      for i := start - 1; i < end; i++ { rangeDeps = append(rangeDeps, deps[i]) }
      return rangeDeps, nil
  }
  \<close>
  The variable \<^verbatim>\<open>end\<close> is \<open>endNum\<close> here. The loop runs only after the bounds check, so
  every \<^verbatim>\<open>deps[i]\<close> it reads is in range.
\<close>

function parseRange_loop :: "Dependency list \<Rightarrow> int \<Rightarrow> int \<Rightarrow> Dependency list \<Rightarrow> Dependency list" where
  "parseRange_loop deps i endNum rangeDeps =
     (if i < endNum then parseRange_loop deps (i + 1) endNum (rangeDeps @ [deps ! nat i])
      else rangeDeps)"
  by pat_completeness auto
termination
  by (relation "measure (\<lambda>(deps, i, endNum, rangeDeps). nat (endNum - i))") auto

declare parseRange_loop.simps [simp del]

definition parseRange :: "string \<Rightarrow> Dependency list \<Rightarrow> error + Dependency list" where
  "parseRange part deps =
     (let rangeParts = Split part (CHR ''-'')
      in if length rangeParts \<noteq> 2 then Inl (InvalidRangeFormat part)
         else (case Atoi (TrimSpace (rangeParts ! 0)) of
                 None \<Rightarrow> Inl (InvalidStartNumber (rangeParts ! 0))
               | Some start \<Rightarrow>
                  (case Atoi (TrimSpace (rangeParts ! 1)) of
                     None \<Rightarrow> Inl (InvalidEndNumber (rangeParts ! 1))
                   | Some endNum \<Rightarrow>
                      if start < 1 \<or> endNum > int (length deps) \<or> start > endNum
                      then Inl (RangeOutOfBounds start endNum (int (length deps)))
                      else Inr (parseRange_loop deps (start - 1) endNum []))))"

text \<open>
  \<^verbatim>\<open>
  func (p *selectionParser) ParseSelection(input string, deps []dependency.Dependency) ([]dependency.Dependency, error) {
      input = strings.ToLower(strings.TrimSpace(input))
      if input == "all" { return deps, nil }
      var selected []dependency.Dependency
      parts := strings.Split(input, ",")
      for _, part := range parts {
          part = strings.TrimSpace(part)
          if strings.Contains(part, "-") {
              rangeDeps, err := p.parseRange(part, deps)
              if err != nil { return nil, err }
              selected = append(selected, rangeDeps...)
              continue
          }
          if num, err := strconv.Atoi(part); err == nil {
              if num < 1 || num > len(deps) {
                  return nil, fmt.Errorf("number %d is out of range (1-%d)", num, len(deps))
              }
              dep := deps[num-1]
              if !containsDependency(selected, dep) { selected = append(selected, dep) }
              continue
          }
          matched := p.matchPattern(part, deps, &selected)
          if !matched { return nil, fmt.Errorf("no dependencies match pattern: %s", part) }
      }
      return selected, nil
  }
  \<close>
\<close>

fun ParseSelection_loop ::
  "string list \<Rightarrow> Dependency list \<Rightarrow> Dependency list \<Rightarrow> error + Dependency list" where
  "ParseSelection_loop [] deps selected = Inr selected"
| "ParseSelection_loop (p # parts) deps selected =
     (let part = TrimSpace p
      in if Contains part ''-'' then
           (case parseRange part deps of
              Inl err \<Rightarrow> Inl err
            | Inr rangeDeps \<Rightarrow> ParseSelection_loop parts deps (selected @ rangeDeps))
         else
           (case Atoi part of
              Some num \<Rightarrow>
                if num < 1 \<or> num > int (length deps)
                then Inl (NumberOutOfRange num (int (length deps)))
                else (let dep = deps ! nat (num - 1)
                      in if \<not> containsDependency selected dep
                         then ParseSelection_loop parts deps (selected @ [dep])
                         else ParseSelection_loop parts deps selected)
            | None \<Rightarrow>
                (case matchPattern part deps selected of
                   (matched, selected') \<Rightarrow>
                     if \<not> matched then Inl (NoMatch part)
                     else ParseSelection_loop parts deps selected')))"

definition ParseSelection :: "string \<Rightarrow> Dependency list \<Rightarrow> error + Dependency list" where
  "ParseSelection input deps =
     (let input = ToLower (TrimSpace input)
      in if input = ''all'' then Inr deps
         else ParseSelection_loop (Split input (CHR '','')) deps [])"


subsection \<open>The interactive selection\<close>

text \<open>
  The user interface (\<^verbatim>\<open>UIInterface\<close>) is outside the program. Its state is the lines
  that \<^verbatim>\<open>ReadInput\<close> will return (a line, or a failure of the input stream), the answers
  that \<^verbatim>\<open>Confirm\<close> will return, and the calls made so far, each with its format string
  and arguments. \<^verbatim>\<open>fmt.Println\<close> writes to the same terminal and is recorded with them.
\<close>

datatype arg = ArgInt int | ArgStr string | ArgErr error

datatype ui_call =
    UI_Info string "arg list"
  | UI_Success string "arg list"
  | UI_Error string "arg list"
  | UI_PrintDependencies "Dependency list" string
  | UI_ReadInput string
  | UI_Confirm string
  | Println string

record ui_state =
  ui_inputs :: "(error + string) list"
  ui_confirms :: "bool list"
  ui_calls :: "ui_call list"

record SelectionResult =
  Selected :: "Dependency list"
  Cancelled :: bool
  Error :: "error option"

text \<open>The lines of \<^verbatim>\<open>showSelectionHelp\<close>; \<open>bullet\<close> is the UTF-8 encoding of U+2022.\<close>

definition bullet :: string where
  "bullet = [CHR 0xE2, CHR 0x80, CHR 0xA2]"

definition showSelectionHelp :: "ui_call list" where
  "showSelectionHelp =
     [UI_Info ''Selection options:'' [],
      Println (''  '' @ bullet @ '' Enter numbers (e.g., 1,3,5 or 1-3 or 1,3-5)''),
      Println (''  '' @ bullet @ '' Enter 'all' to select all dependencies''),
      Println (''  '' @ bullet @ '' Enter package names or patterns (e.g., 'github.com/gin*')''),
      Println (''  '' @ bullet @ '' Press Enter without input to cancel''),
      Println []]"

text \<open>
  \<^verbatim>\<open>
  for {
      input, err := s.ui.ReadInput("Select dependencies to update")
      if err != nil { return SelectionResult{Error: fmt.Errorf("reading input: %w", err)} }
      input = strings.TrimSpace(input)
      if input == "" { return SelectionResult{Cancelled: true} }
      selected, err := s.parser.ParseSelection(input, deps)
      if err != nil { s.ui.Error("Invalid selection: %v", err); continue }
      if len(selected) == 0 { s.ui.Error("No dependencies matched your selection"); continue }
      s.ui.Success("Selected %d dependencies:", len(selected))
      s.ui.PrintDependencies(selected, "")
      if s.ui.Confirm("Proceed with these selected dependencies?") {
          return SelectionResult{Selected: selected}
      }
      s.ui.Info("Let's try again...")
  }
  \<close>
  The loop has no bound of its own. Every round reads one line, so the model recurs on
  the lines still to come; when they (or the answers) are used up while the loop is still
  asking, the result is \<open>None\<close>: the loop has not returned.
\<close>

fun Select_loop ::
  "(error + string) list \<Rightarrow> bool list \<Rightarrow> ui_call list \<Rightarrow> Dependency list \<Rightarrow>
     (SelectionResult \<times> ui_state) option"
where
  "Select_loop [] confirms calls deps = None"
| "Select_loop (r # inputs) confirms calls deps =
     (let calls = calls @ [UI_ReadInput ''Select dependencies to update'']
      in case r of
           Inl err \<Rightarrow>
             Some (\<lparr>Selected = [], Cancelled = False, Error = Some (ReadingInput err)\<rparr>,
                   \<lparr>ui_inputs = inputs, ui_confirms = confirms, ui_calls = calls\<rparr>)
         | Inr line \<Rightarrow>
             (let input = TrimSpace line
              in if input = [] then
                   Some (\<lparr>Selected = [], Cancelled = True, Error = None\<rparr>,
                         \<lparr>ui_inputs = inputs, ui_confirms = confirms, ui_calls = calls\<rparr>)
                 else
                   (case ParseSelection input deps of
                      Inl err \<Rightarrow>
                        Select_loop inputs confirms
                          (calls @ [UI_Error ''Invalid selection: %v'' [ArgErr err]]) deps
                    | Inr selected \<Rightarrow>
                        if length selected = 0 then
                          Select_loop inputs confirms
                            (calls @ [UI_Error ''No dependencies matched your selection'' []]) deps
                        else
                          (let calls = calls @
                                 [UI_Success ''Selected %d dependencies:'' [ArgInt (int (length selected))],
                                  UI_PrintDependencies selected [],
                                  UI_Confirm ''Proceed with these selected dependencies?'']
                           in case confirms of
                                [] \<Rightarrow> None
                              | c # confirms \<Rightarrow>
                                  if c then
                                    Some (\<lparr>Selected = selected, Cancelled = False, Error = None\<rparr>,
                                          \<lparr>ui_inputs = inputs, ui_confirms = confirms, ui_calls = calls\<rparr>)
                                  else
                                    Select_loop inputs confirms
                                      (calls @ [UI_Info ''Let's try again...'' []]) deps))))"

text \<open>
  \<^verbatim>\<open>
  func (s *interactiveSelector) Select(deps []dependency.Dependency, includeIndirect bool) SelectionResult {
      if len(deps) == 0 { return SelectionResult{Selected: []dependency.Dependency{}} }
      typeStr := "direct"
      if includeIndirect { typeStr = "all" }
      s.ui.Info("Found %d %s dependencies with available updates:", len(deps), typeStr)
      s.ui.PrintDependencies(deps, "")
      s.showSelectionHelp()
      for { ... }
  }
  \<close>
\<close>

definition Select :: "Dependency list \<Rightarrow> bool \<Rightarrow> ui_state \<Rightarrow> (SelectionResult \<times> ui_state) option" where
  "Select deps includeIndirect ui =
     (if length deps = 0 then
        Some (\<lparr>Selected = [], Cancelled = False, Error = None\<rparr>, ui)
      else
        (let typeStr = (if includeIndirect then ''all'' else ''direct'')
         in Select_loop (ui_inputs ui) (ui_confirms ui)
              (ui_calls ui @
                 [UI_Info ''Found %d %s dependencies with available updates:''
                    [ArgInt (int (length deps)), ArgStr typeStr],
                  UI_PrintDependencies deps []] @ showSelectionHelp)
              deps))"

subsection \<open>Records for concrete runs\<close>

text \<open>A direct dependency with an update, named by its path.\<close>

definition testDep :: "string \<Rightarrow> Dependency" where
  "testDep p = \<lparr>Path = p, Version = ''v1.0.0'', NewVersion = ''v1.1.0'', Indirect = False, HasUpdate = True\<rparr>"

section \<open>Properties of filtering\<close>

lemma FilterDependencies_loop_eq:
  "FilterDependencies_loop deps filtered = filtered @ filter (\<lambda>d. \<not> Indirect d) deps"
  by (induction deps arbitrary: filtered) simp_all

lemma FilterDependencies_False_eq:
  "FilterDependencies deps False = filter (\<lambda>d. \<not> Indirect d) deps"
  by (simp add: FilterDependencies_def FilterDependencies_loop_eq)

text \<open>
  Claim C6. Filtering with \<open>includeIndirect = True\<close> returns the list itself; filtering
  with \<open>includeIndirect = False\<close> returns exactly the records that are not indirect, in
  the order they had in the input.
\<close>

theorem FilterDependencies_spec:
  "FilterDependencies deps True = deps \<and>
   FilterDependencies deps False = filter (\<lambda>d. \<not> Indirect d) deps"
  by (simp add: FilterDependencies_def FilterDependencies_loop_eq)

section \<open>Properties of sorting\<close>

lemma mset_sink: "mset (sink lt x p) = add_mset x (mset p)"
  by (induction p) simp_all

lemma mset_foldl_sink:
  "mset (foldl (\<lambda>prefix x. sink lt x prefix) p xs) = mset p + mset xs"
  by (induction xs arbitrary: p) (simp_all add: mset_sink)

lemma mset_sort_Slice: "mset (sort_Slice lt xs) = mset xs"
  by (simp add: sort_Slice_def mset_foldl_sink)

lemma set_sink: "set (sink lt x p) = insert x (set p)"
  by (induction p) auto

text \<open>
  A comparison that is the strict order of some key keeps the reversed prefix
  descending, so the result is ascending.
\<close>

lemma sorted_wrt_sink:
  fixes key :: "'a \<Rightarrow> 'k::linorder"
  assumes lt: "\<And>a b. lt a b \<longleftrightarrow> key a < key b"
    and p: "sorted_wrt (\<lambda>a b. key b \<le> key a) p"
  shows "sorted_wrt (\<lambda>a b. key b \<le> key a) (sink lt x p)"
  using p
proof (induction p)
  case Nil
  then show ?case by simp
next
  case (Cons y ys)
  show ?case
  proof (cases "lt x y")
    case True
    then have "key x \<le> key y" by (simp add: lt)
    with Cons True show ?thesis by (auto simp: set_sink)
  next
    case False
    then have xy: "key y \<le> key x" by (simp add: lt not_less)
    have "\<forall>z\<in>set ys. key z \<le> key x"
      using Cons.prems xy by (auto intro: order_trans)
    with Cons.prems False xy show ?thesis by simp
  qed
qed

lemma sorted_wrt_foldl_sink:
  fixes key :: "'a \<Rightarrow> 'k::linorder"
  assumes lt: "\<And>a b. lt a b \<longleftrightarrow> key a < key b"
    and p: "sorted_wrt (\<lambda>a b. key b \<le> key a) p"
  shows "sorted_wrt (\<lambda>a b. key b \<le> key a) (foldl (\<lambda>prefix x. sink lt x prefix) p xs)"
  using p
proof (induction xs arbitrary: p)
  case Nil
  then show ?case by simp
next
  case (Cons x xs)
  have "sorted_wrt (\<lambda>a b. key b \<le> key a) (sink lt x p)"
    using lt Cons.prems by (rule sorted_wrt_sink)
  then show ?case using Cons.IH by simp
qed

lemma sorted_sort_Slice:
  fixes key :: "'a \<Rightarrow> 'k::linorder"
  assumes lt: "\<And>a b. lt a b \<longleftrightarrow> key a < key b"
  shows "sorted (map key (sort_Slice lt xs))"
proof -
  have "sorted_wrt (\<lambda>a b. key b \<le> key a) (foldl (\<lambda>prefix x. sink lt x prefix) [] xs)"
    using lt by (rule sorted_wrt_foldl_sink) simp
  then have "sorted_wrt (\<lambda>a b. key a \<le> key b) (sort_Slice lt xs)"
    by (simp add: sort_Slice_def sorted_wrt_rev)
  then show ?thesis by (simp add: sorted_map)
qed

text \<open>A slice that is already in order is left as it is: no element sinks.\<close>

lemma foldl_sink_sorted:
  assumes "sorted_wrt (\<lambda>a b. \<not> lt b a) (pre @ xs)"
  shows "foldl (\<lambda>prefix x. sink lt x prefix) (rev pre) xs = rev (pre @ xs)"
  using assms
proof (induction xs arbitrary: pre)
  case Nil
  then show ?case by simp
next
  case (Cons x xs)
  have step: "sink lt x (rev pre) = rev (pre @ [x])"
  proof (cases pre rule: rev_cases)
    case Nil
    then show ?thesis by simp
  next
    case (snoc ys y)
    with Cons.prems have "\<not> lt x y" by (simp add: sorted_wrt_append)
    with snoc show ?thesis by simp
  qed
  have "sorted_wrt (\<lambda>a b. \<not> lt b a) ((pre @ [x]) @ xs)"
    using Cons.prems by simp
  then have "foldl (\<lambda>prefix x. sink lt x prefix) (rev (pre @ [x])) xs = rev ((pre @ [x]) @ xs)"
    by (rule Cons.IH)
  then show ?case using step by simp
qed

lemma sort_Slice_sorted_id:
  assumes "sorted_wrt (\<lambda>a b. \<not> lt b a) xs"
  shows "sort_Slice lt xs = xs"
  using foldl_sink_sorted [of lt "[]" xs] assms by (simp add: sort_Slice_def)

lemma sort_Slice_idem:
  fixes key :: "'a \<Rightarrow> 'k::linorder"
  assumes lt: "\<And>a b. lt a b \<longleftrightarrow> key a < key b"
  shows "sort_Slice lt (sort_Slice lt xs) = sort_Slice lt xs"
proof -
  have "sorted (map key (sort_Slice lt xs))"
    using lt by (rule sorted_sort_Slice)
  then have "sorted_wrt (\<lambda>a b. \<not> lt b a) (sort_Slice lt xs)"
    by (simp add: sorted_map lt not_less)
  then show ?thesis by (rule sort_Slice_sorted_id)
qed

lemma sortDependencies_less_key:
  "sortDependencies_less a b \<longleftrightarrow> depKeyOf a < depKeyOf b"
  by (simp add: sortDependencies_less_def depKeyOf_def)

lemma sorted_keys_sortDependencies: "sorted (map depKeyOf (sortDependencies deps))"
  unfolding sortDependencies_def
  by (rule sorted_sort_Slice) (rule sortDependencies_less_key)

lemma grouped_by_flag:
  "sorted_wrt (\<lambda>a b. P a \<longrightarrow> P b) ys \<Longrightarrow> filter (\<lambda>d. \<not> P d) ys @ filter P ys = ys"
proof (induction ys)
  case Nil
  then show ?case by simp
next
  case (Cons y ys)
  show ?case
  proof (cases "P y")
    case True
    with Cons.prems have "\<forall>z\<in>set ys. P z" by simp
    then have "filter (\<lambda>d. \<not> P d) ys = []" and "filter P ys = ys"
      by (simp_all add: filter_empty_conv filter_id_conv)
    with True show ?thesis by simp
  next
    case False
    with Cons show ?thesis by simp
  qed
qed

lemma sorted_keys_grouped:
  assumes "sorted (map depKeyOf ys)"
  shows "filter (\<lambda>d. \<not> Indirect d) ys @ filter Indirect ys = ys"
proof (rule grouped_by_flag)
  have "sorted_wrt (\<lambda>a b. depKeyOf a \<le> depKeyOf b) ys"
    using assms by (simp add: sorted_map)
  then show "sorted_wrt (\<lambda>a b. Indirect a \<longrightarrow> Indirect b) ys"
    by (rule sorted_wrt_mono_rel [rotated]) (auto simp: depKeyOf_def split: if_splits)
qed

lemma sorted_keys_paths:
  assumes "sorted (map depKeyOf ys)"
  shows "sorted (map Path (filter (\<lambda>d. Indirect d = b) ys))"
proof -
  have "sorted_wrt (\<lambda>a b. depKeyOf a \<le> depKeyOf b) ys"
    using assms by (simp add: sorted_map)
  then have "sorted_wrt (\<lambda>a b. depKeyOf a \<le> depKeyOf b) (filter (\<lambda>d. Indirect d = b) ys)"
    by (rule sorted_wrt_filter)
  then have "sorted_wrt (\<lambda>a b. Path a \<le> Path b) (filter (\<lambda>d. Indirect d = b) ys)"
    by (rule sorted_wrt_mono_rel [rotated]) (auto simp: depKeyOf_def split: if_splits)
  then show ?thesis by (simp add: sorted_map)
qed

text \<open>
  The two lemmas that follow do not depend on how \<^verbatim>\<open>sort.Slice\<close> sorts: every
  arrangement in which no record is less than an earlier one is grouped and ordered as
  claim C3 says, and when the paths of the input are pairwise distinct there is only
  one such arrangement of it, the one \<open>sortDependencies\<close> computes.
\<close>

lemma sorted_keys_iff:
  "sorted (map depKeyOf ys) \<longleftrightarrow> sorted_wrt (\<lambda>a b. \<not> sortDependencies_less b a) ys"
  by (simp add: sorted_map sortDependencies_less_key not_less)

lemma any_sorted_arrangement_canonical:
  assumes "sorted_wrt (\<lambda>a b. \<not> sortDependencies_less b a) ys"
  shows "ys = filter (\<lambda>d. \<not> Indirect d) ys @ filter Indirect ys \<and>
         sorted (map Path (filter (\<lambda>d. \<not> Indirect d) ys)) \<and>
         sorted (map Path (filter Indirect ys))"
proof -
  from assms have keys: "sorted (map depKeyOf ys)" by (simp add: sorted_keys_iff)
  show ?thesis
    using sorted_keys_grouped [OF keys] sorted_keys_paths [OF keys, of False]
      sorted_keys_paths [OF keys, of True]
    by simp
qed

lemma sortDependencies_unique_result:
  assumes paths: "distinct (map Path deps)"
    and perm: "mset ys = mset deps"
    and ord: "sorted_wrt (\<lambda>a b. \<not> sortDependencies_less b a) ys"
  shows "ys = sortDependencies deps"
proof -
  let ?zs = "sortDependencies deps"
  have zperm: "mset ?zs = mset deps"
    by (simp add: sortDependencies_def mset_sort_Slice)
  have sets: "set ys = set deps" "set ?zs = set deps"
    using perm zperm by (metis set_mset_mset)+
  have inj: "inj_on depKeyOf (set deps)"
  proof (rule inj_onI)
    fix a b assume "a \<in> set deps" "b \<in> set deps" "depKeyOf a = depKeyOf b"
    then have "Path a = Path b" by (simp add: depKeyOf_def)
    with paths \<open>a \<in> set deps\<close> \<open>b \<in> set deps\<close> show "a = b"
      by (meson distinct_map inj_onD)
  qed
  have "distinct deps" using paths by (simp add: distinct_map)
  then have dys: "distinct ys" and dzs: "distinct ?zs"
    using perm zperm by (metis mset_eq_imp_distinct_iff)+
  have "distinct (map depKeyOf ys)" "distinct (map depKeyOf ?zs)"
    using dys dzs inj sets by (simp_all add: distinct_map)
  moreover have "sorted (map depKeyOf ys)" using ord by (simp add: sorted_keys_iff)
  moreover have "sorted (map depKeyOf ?zs)" by (rule sorted_keys_sortDependencies)
  moreover have "inj_on depKeyOf (set ys \<union> set ?zs)" using inj sets by simp
  moreover have "set ys = set ?zs" using sets by simp
  ultimately show ?thesis
    by (metis map_sorted_distinct_set_unique)
qed

text \<open>
  Claim C3. The list produced by \<open>sortDependencies\<close> is a rearrangement of its input
  in which every record that is not indirect stands before every indirect record, and
  in which the paths of the non-indirect records, and the paths of the indirect
  records, are each in ascending lexicographic order.
\<close>

theorem sortDependencies_canonical:
  "mset (sortDependencies deps) = mset deps \<and>
   sortDependencies deps =
     filter (\<lambda>d. \<not> Indirect d) (sortDependencies deps) @ filter Indirect (sortDependencies deps) \<and>
   sorted (map Path (filter (\<lambda>d. \<not> Indirect d) (sortDependencies deps))) \<and>
   sorted (map Path (filter Indirect (sortDependencies deps)))"
proof -
  let ?ys = "sortDependencies deps"
  have keys: "sorted (map depKeyOf ?ys)"
    by (rule sorted_keys_sortDependencies)
  have perm: "mset ?ys = mset deps"
    by (simp add: sortDependencies_def mset_sort_Slice)
  have grouped: "?ys = filter (\<lambda>d. \<not> Indirect d) ?ys @ filter Indirect ?ys"
    using sorted_keys_grouped [OF keys] by simp
  have direct: "sorted (map Path (filter (\<lambda>d. \<not> Indirect d) ?ys))"
    using sorted_keys_paths [OF keys, of False] by simp
  have indirect: "sorted (map Path (filter Indirect ?ys))"
    using sorted_keys_paths [OF keys, of True] by simp
  from perm grouped direct indirect show ?thesis by blast
qed

text \<open>
  Claim C8. Filtering twice with the same flag gives what filtering once gives, and
  sorting a list that \<open>sortDependencies\<close> has produced leaves it unchanged.
\<close>

theorem filter_sort_idempotent:
  "FilterDependencies (FilterDependencies L b) b = FilterDependencies L b \<and>
   sortDependencies (sortDependencies L) = sortDependencies L"
proof
  show "FilterDependencies (FilterDependencies L b) b = FilterDependencies L b"
    by (cases b) (simp_all add: FilterDependencies_def FilterDependencies_loop_eq)
  show "sortDependencies (sortDependencies L) = sortDependencies L"
    unfolding sortDependencies_def
    by (rule sort_Slice_idem) (rule sortDependencies_less_key)
qed

text \<open>
  The earlier variant, which compares paths only, orders the whole list by path and
  does not look at the indirect flag.
\<close>

lemma sortByPath_sorted: "sorted (map Path (sortByPath deps)) \<and> mset (sortByPath deps) = mset deps"
  unfolding sortByPath_def
  by (simp add: sorted_sort_Slice [where key = Path] mset_sort_Slice)

lemma sortByPath_ignores_flag:
  "map Indirect (sortByPath [(testDep ''a'')\<lparr>Indirect := True\<rparr>, testDep ''b'']) = [True, False]"
  by code_simp

section \<open>Properties of the updater\<close>


lemma UpdateDependencies_loop_recorded:
  "snd (snd (UpdateDependencies_loop (recording run) verbose deps result (w, log))) =
     log @ map (getCommand verbose) deps"
proof (induction deps arbitrary: result w log)
  case Nil
  then show ?case by simp
next
  case (Cons dep deps)
  obtain r w1 where run: "run w ''go'' [''get'', ''-u'', Path dep] verbose = (r, w1)"
    by (cases "run w ''go'' [''get'', ''-u'', Path dep] verbose")
  have rec: "recording run (w, log) ''go'' [''get'', ''-u'', Path dep] verbose =
      (r, (w1, log @ [getCommand verbose dep]))"
    by (simp add: recording_def run getCommand_def)
  show ?case
    by (cases r) (simp_all add: rec Cons.IH)
qed

lemma UpdateDependencies_Success:
  "Success (fst (UpdateDependencies run deps verbose w)) \<longleftrightarrow>
     Failed (fst (UpdateDependencies run deps verbose w)) = []"
  by (simp add: UpdateDependencies_def split: prod.splits)

lemma UpdateDependencies_loop_partition:
  "UpdateDependencies_loop run verbose deps result w = (r, w') \<Longrightarrow>
   \<exists>us fs. Updated r = Updated result @ us \<and>
           map Dependency (Failed r) = map Dependency (Failed result) @ fs \<and>
           Success r = Success result \<and>
           mset us + mset fs = mset deps \<and> subseq us deps \<and> subseq fs deps"
proof (induction deps arbitrary: result w)
  case Nil
  then show ?case by auto
next
  case (Cons dep deps)
  obtain x w1 where run: "run w ''go'' [''get'', ''-u'', Path dep] verbose = (x, w1)"
    by (cases "run w ''go'' [''get'', ''-u'', Path dep] verbose")
  show ?case
  proof (cases x)
    case None
    let ?res = "result\<lparr>Updated := Updated result @ [dep]\<rparr>"
    from Cons.prems run None
    have "UpdateDependencies_loop run verbose deps ?res w1 = (r, w')" by simp
    from Cons.IH [OF this] obtain us fs where
      h: "Updated r = Updated ?res @ us"
         "map Dependency (Failed r) = map Dependency (Failed ?res) @ fs"
         "Success r = Success ?res"
         "mset us + mset fs = mset deps" "subseq us deps" "subseq fs deps"
      by blast
    show ?thesis
      apply (rule exI [of _ "dep # us"], rule exI [of _ fs])
      using h by (simp add: list_emb_Cons)
  next
    case (Some err)
    let ?res = "result\<lparr>Failed := Failed result @ [\<lparr>Dependency = dep, UpdateError.Error = err\<rparr>]\<rparr>"
    from Cons.prems run Some
    have "UpdateDependencies_loop run verbose deps ?res w1 = (r, w')" by simp
    from Cons.IH [OF this] obtain us fs where
      h: "Updated r = Updated ?res @ us"
         "map Dependency (Failed r) = map Dependency (Failed ?res) @ fs"
         "Success r = Success ?res"
         "mset us + mset fs = mset deps" "subseq us deps" "subseq fs deps"
      by blast
    show ?thesis
      apply (rule exI [of _ us], rule exI [of _ "dep # fs"])
      using h by (simp add: list_emb_Cons)
  qed
qed


lemma updateWithProgress_loop_recorded:
  "snd (fst (snd (updateWithProgress_loop (UpdateDependencies (recording run)) verbose n i deps
       allResults (w, log) console))) = log @ map (getCommand verbose) deps"
proof (induction deps arbitrary: i allResults w log console)
  case Nil
  then show ?case by simp
next
  case (Cons dep deps)
  obtain single w1 log1 where
    single: "UpdateDependencies (recording run) [dep] verbose (w, log) = (single, (w1, log1))"
    by (metis prod.exhaust)
  have "snd (snd (UpdateDependencies_loop (recording run) verbose [dep]
          \<lparr>Updated = [], Failed = [], Success = False\<rparr> (w, log))) = log @ map (getCommand verbose) [dep]"
    by (rule UpdateDependencies_loop_recorded)
  with single have log1: "log1 = log @ [getCommand verbose dep]"
    by (simp add: UpdateDependencies_def split: prod.splits)
  show ?case
    using Cons.IH [of "i + 1" "allResults @ [single]" w1 log1]
    by (simp add: single log1)
qed

lemma updateWithProgress_loop_results:
  assumes "\<forall>r\<in>set allResults. P r" and "\<And>ds v w0. P (fst (upd ds v w0))"
  shows "\<forall>r\<in>set (fst (updateWithProgress_loop upd verbose n i deps allResults w console)). P r"
  using assms(1)
proof (induction deps arbitrary: i allResults w console)
  case Nil
  then show ?case by simp
next
  case (Cons dep deps)
  obtain single w1 where single: "upd [dep] verbose w = (single, w1)"
    by (cases "upd [dep] verbose w")
  have "P single" using assms(2) [of "[dep]" verbose w] single by simp
  with Cons.prems have "\<forall>r\<in>set (allResults @ [single]). P r" by simp
  from Cons.IH [OF this] show ?case by (simp add: single)
qed

lemma updateWithProgress_merge_Success:
  assumes "Success finalResult \<longleftrightarrow> Failed finalResult = []"
    and "\<forall>r\<in>set allResults. Success r \<longleftrightarrow> Failed r = []"
  shows "Success (updateWithProgress_merge allResults finalResult) \<longleftrightarrow>
         Failed (updateWithProgress_merge allResults finalResult) = []"
  using assms
proof (induction allResults arbitrary: finalResult)
  case Nil
  then show ?case by simp
next
  case (Cons result allResults)
  show ?case
    unfolding updateWithProgress_merge.simps
    by (rule Cons.IH) (use Cons.prems in auto)
qed

lemma updateWithProgress_Success:
  "Success (fst (updateWithProgress (UpdateDependencies run) verbose deps w console)) \<longleftrightarrow>
   Failed (fst (updateWithProgress (UpdateDependencies run) verbose deps w console)) = []"
proof -
  obtain allResults w' console' where
    loop: "updateWithProgress_loop (UpdateDependencies run) verbose (int (length deps)) 0 deps [] w console
             = (allResults, w', console')"
    by (metis prod.exhaust)
  have "\<forall>r\<in>set (fst (updateWithProgress_loop (UpdateDependencies run) verbose (int (length deps)) 0
           deps [] w console)). Success r \<longleftrightarrow> Failed r = []"
    by (rule updateWithProgress_loop_results) (simp_all add: UpdateDependencies_Success)
  then have all: "\<forall>r\<in>set allResults. Success r \<longleftrightarrow> Failed r = []"
    by (simp add: loop)
  have "Success (updateWithProgress_merge allResults \<lparr>Updated = [], Failed = [], Success = True\<rparr>) \<longleftrightarrow>
        Failed (updateWithProgress_merge allResults \<lparr>Updated = [], Failed = [], Success = True\<rparr>) = []"
    by (rule updateWithProgress_merge_Success) (simp_all add: all)
  then show ?thesis by (simp add: updateWithProgress_def loop)
qed

text \<open>
  Claim C4. Whatever the external command does, updating a list of records runs the
  update command of every record, in the order of the list (a failure does not stop the
  batch), and the success flag of the result is true exactly when its failed list is
  empty. This holds for \<open>UpdateDependencies\<close> and for \<open>updateWithProgress\<close> over it.
\<close>

theorem update_attempts_every_record:
  "snd (snd (UpdateDependencies (recording run) deps verbose (w, []))) = map (getCommand verbose) deps \<and>
   (Success (fst (UpdateDependencies run deps verbose w)) \<longleftrightarrow>
      Failed (fst (UpdateDependencies run deps verbose w)) = []) \<and>
   snd (fst (snd (updateWithProgress (UpdateDependencies (recording run)) verbose deps (w, []) console)))
      = map (getCommand verbose) deps \<and>
   (Success (fst (updateWithProgress (UpdateDependencies run) verbose deps w console)) \<longleftrightarrow>
      Failed (fst (updateWithProgress (UpdateDependencies run) verbose deps w console)) = [])"
proof -
  have a: "snd (snd (UpdateDependencies (recording run) deps verbose (w, []))) = map (getCommand verbose) deps"
    using UpdateDependencies_loop_recorded
      [of run verbose deps "\<lparr>Updated = [], Failed = [], Success = False\<rparr>" w "[]"]
    by (auto simp: UpdateDependencies_def split: prod.splits)
  have c: "snd (fst (snd (updateWithProgress (UpdateDependencies (recording run)) verbose deps (w, []) console)))
      = map (getCommand verbose) deps"
    using updateWithProgress_loop_recorded [of run verbose "int (length deps)" 0 deps "[]" w "[]" console]
    by (auto simp: updateWithProgress_def split: prod.splits)
  show ?thesis
    using a c UpdateDependencies_Success [of run deps verbose w]
      updateWithProgress_Success [of run verbose deps w console]
    by blast
qed

text \<open>
  Claim C10. The result of \<open>UpdateDependencies\<close> splits the input: the updated and
  the failed records together are exactly the input records (with multiplicity), so
  their numbers add up to the length of the input, and each of the two lists is a
  subsequence of the input, that is, keeps its relative order.
\<close>

theorem UpdateDependencies_partition:
  "length (Updated (fst (UpdateDependencies run deps verbose w))) +
     length (Failed (fst (UpdateDependencies run deps verbose w))) = length deps \<and>
   mset (Updated (fst (UpdateDependencies run deps verbose w))) +
     mset (map Dependency (Failed (fst (UpdateDependencies run deps verbose w)))) = mset deps \<and>
   subseq (Updated (fst (UpdateDependencies run deps verbose w))) deps \<and>
   subseq (map Dependency (Failed (fst (UpdateDependencies run deps verbose w)))) deps"
proof -
  obtain r w' where
    loop: "UpdateDependencies_loop run verbose deps \<lparr>Updated = [], Failed = [], Success = False\<rparr> w = (r, w')"
    by (metis prod.exhaust)
  from UpdateDependencies_loop_partition [OF loop] obtain us fs where
    h: "Updated r = us" "map Dependency (Failed r) = fs"
       "mset us + mset fs = mset deps" "subseq us deps" "subseq fs deps"
    by auto
  have res: "fst (UpdateDependencies run deps verbose w) = r\<lparr>Success := (length (Failed r) = 0)\<rparr>"
    by (simp add: UpdateDependencies_def loop)
  have "length us + length fs = length deps"
    using h(3) by (metis size_mset size_union)
  moreover have "length fs = length (Failed r)"
    using h(2) by (metis length_map)
  ultimately show ?thesis
    using h by (simp add: res)
qed

section \<open>Properties of the selector\<close>

lemma Index_bound:
  "Index s substr \<noteq> - 1 \<Longrightarrow>
   0 \<le> Index s substr \<and> Index s substr + int (length substr) \<le> int (length s)"
proof (induction s)
  case Nil
  then show ?case by (simp split: if_splits)
next
  case (Cons c s)
  show ?case
  proof (cases "prefix substr (c # s)")
    case True
    then have "length substr \<le> length (c # s)" by (rule prefix_length_le)
    with True show ?thesis by simp
  next
    case False
    with Cons.prems have "Index s substr \<noteq> - 1"
      by (auto simp: Let_def split: if_splits)
    with Cons.IH False show ?thesis by (simp add: Let_def)
  qed
qed

lemma containsDependency_iff:
  "containsDependency slice d \<longleftrightarrow> Path d \<in> Path ` set slice"
  by (induction slice) auto

lemma matchPattern_loop_distinct:
  "distinct (map Path selected) \<Longrightarrow>
   distinct (map Path (snd (matchPattern_loop pattern deps selected matched)))"
proof (induction deps arbitrary: selected matched)
  case Nil
  then show ?case by simp
next
  case (Cons d deps)
  show ?case
  proof (cases "matchesPattern (ToLower (Path d)) pattern \<and> \<not> containsDependency selected d")
    case True
    then have step: "matchPattern_loop pattern (d # deps) selected matched =
        matchPattern_loop pattern deps (selected @ [d]) True" by simp
    from True Cons.prems have "distinct (map Path (selected @ [d]))"
      by (simp add: containsDependency_iff)
    then show ?thesis unfolding step by (rule Cons.IH)
  next
    case False
    then have step: "matchPattern_loop pattern (d # deps) selected matched =
        matchPattern_loop pattern deps selected matched" by auto
    show ?thesis unfolding step using Cons.prems by (rule Cons.IH)
  qed
qed

lemma ParseSelection_loop_distinct_without_ranges:
  "\<forall>p\<in>set parts. \<not> Contains (TrimSpace p) ''-'' \<Longrightarrow> distinct (map Path selected) \<Longrightarrow>
   ParseSelection_loop parts deps selected = Inr result \<Longrightarrow> distinct (map Path result)"
proof (induction parts arbitrary: selected)
  case Nil
  then show ?case by simp
next
  case (Cons p parts)
  from Cons.prems(1) have norange: "\<not> Contains (TrimSpace p) ''-''"
    and rest: "\<forall>p\<in>set parts. \<not> Contains (TrimSpace p) ''-''" by simp_all
  show ?case
  proof (cases "Atoi (TrimSpace p)")
    case (Some num)
    show ?thesis
    proof (cases "num < 1 \<or> num > int (length deps)")
      case True
      with Cons.prems(3) norange Some show ?thesis by simp
    next
      case False
      let ?dep = "deps ! nat (num - 1)"
      show ?thesis
      proof (cases "containsDependency selected ?dep")
        case True
        with Cons.prems(3) norange Some False
        have "ParseSelection_loop parts deps selected = Inr result" by (simp add: Let_def)
        with rest Cons.prems(2) show ?thesis by (rule Cons.IH)
      next
        case notin: False
        with Cons.prems(3) norange Some False
        have r: "ParseSelection_loop parts deps (selected @ [?dep]) = Inr result"
          by (simp add: Let_def)
        from notin Cons.prems(2) have "distinct (map Path (selected @ [?dep]))"
          by (simp add: containsDependency_iff)
        with rest show ?thesis using r by (rule Cons.IH)
      qed
    qed
  next
    case None
    obtain matched selected' where m: "matchPattern (TrimSpace p) deps selected = (matched, selected')"
      by (cases "matchPattern (TrimSpace p) deps selected")
    with Cons.prems(3) norange None
    have r: "ParseSelection_loop parts deps selected' = Inr result"
      by (simp split: if_splits)
    have "distinct (map Path (snd (matchPattern_loop (TrimSpace p) deps selected False)))"
      using Cons.prems(2) by (rule matchPattern_loop_distinct)
    with m have "distinct (map Path selected')" by (simp add: matchPattern_def)
    with rest show ?thesis using r by (rule Cons.IH)
  qed
qed

lemma parseRange_loop_eq:
  "0 \<le> i \<Longrightarrow> i \<le> endNum \<Longrightarrow>
   parseRange_loop deps i endNum rangeDeps = rangeDeps @ map (\<lambda>k. deps ! k) [nat i ..< nat endNum]"
proof (induction deps i endNum rangeDeps rule: parseRange_loop.induct)
  case (1 deps i endNum rangeDeps)
  show ?case
  proof (cases "i < endNum")
    case True
    have step: "parseRange_loop deps i endNum rangeDeps =
        parseRange_loop deps (i + 1) endNum (rangeDeps @ [deps ! nat i])"
      using True by (subst parseRange_loop.simps) simp
    have ih: "parseRange_loop deps (i + 1) endNum (rangeDeps @ [deps ! nat i]) =
        (rangeDeps @ [deps ! nat i]) @ map (\<lambda>k. deps ! k) [nat (i + 1) ..< nat endNum]"
      using "1.IH" [OF True] "1.prems" True by simp
    have "[nat i ..< nat endNum] = nat i # [nat (i + 1) ..< nat endNum]"
      using True "1.prems" by (simp add: upt_conv_Cons nat_add_distrib)
    with step ih show ?thesis by simp
  next
    case False
    with "1.prems" have "i = endNum" by simp
    then show ?thesis by (subst parseRange_loop.simps) simp
  qed
qed

lemma positions_shift:
  "1 \<le> start \<Longrightarrow>
   map (\<lambda>k. deps ! k) [nat (start - 1) ..< nat endNum] =
   map (\<lambda>pos. deps ! (pos - 1)) [nat start ..< Suc (nat endNum)]"
proof -
  assume s: "1 \<le> start"
  have "[nat start ..< Suc (nat endNum)] = map Suc [nat (start - 1) ..< nat endNum]"
    using s by (simp add: map_Suc_upt Suc_nat_eq_nat_zadd1)
  then show ?thesis by (simp add: comp_def)
qed

lemma parseRange_two_tokens:
  assumes "Split part (CHR ''-'') = [a, b]"
    and "Atoi (TrimSpace a) = Some start" and "Atoi (TrimSpace b) = Some endNum"
  shows "parseRange part deps =
     (if start < 1 \<or> endNum > int (length deps) \<or> start > endNum
      then Inl (RangeOutOfBounds start endNum (int (length deps)))
      else Inr (map (\<lambda>pos. deps ! (pos - 1)) [nat start ..< Suc (nat endNum)]))"
proof (cases "start < 1 \<or> endNum > int (length deps) \<or> start > endNum")
  case True
  then show ?thesis by (simp add: parseRange_def assms)
next
  case False
  then have "parseRange_loop deps (start - 1) endNum [] =
      map (\<lambda>pos. deps ! (pos - 1)) [nat start ..< Suc (nat endNum)]"
    by (simp add: parseRange_loop_eq positions_shift)
  with False show ?thesis by (simp add: parseRange_def assms)
qed

lemma parseRange_Inr_valid:
  assumes "parseRange part deps = Inr rangeDeps"
  shows "\<exists>start endNum.
     map (Atoi \<circ> TrimSpace) (Split part (CHR ''-'')) = [Some start, Some endNum] \<and>
     1 \<le> start \<and> start \<le> endNum \<and> endNum \<le> int (length deps)"
proof -
  from assms have len: "length (Split part (CHR ''-'')) = 2"
    by (simp add: parseRange_def Let_def split: if_splits)
  then obtain a b where ab: "Split part (CHR ''-'') = [a, b]"
    by (auto simp: length_Suc_conv numeral_2_eq_2)
  from assms ab obtain start where s: "Atoi (TrimSpace a) = Some start"
    by (cases "Atoi (TrimSpace a)") (simp_all add: parseRange_def)
  from assms ab s obtain endNum where e: "Atoi (TrimSpace b) = Some endNum"
    by (cases "Atoi (TrimSpace b)") (simp_all add: parseRange_def)
  from assms have "\<not> (start < 1 \<or> endNum > int (length deps) \<or> start > endNum)"
    by (simp add: parseRange_two_tokens [OF ab s e] split: if_splits)
  with ab s e show ?thesis by simp
qed

text \<open>
  Claim C5. A clause that contains \<open>-\<close> is read as a range. If, split at \<open>-\<close> and
  trimmed, it is exactly two integers \<open>start\<close> and \<open>endNum\<close> with
  \<open>1 \<le> start \<le> endNum \<le> length deps\<close>, then \<open>parseRange\<close> returns the records at the
  1-based positions \<open>start\<close> to \<open>endNum\<close> in ascending order, and the parser goes on with
  exactly these records appended to the selection. In every other case (not two integer
  tokens, \<open>start < 1\<close>, \<open>endNum > length deps\<close> or \<open>start > endNum\<close>) \<open>parseRange\<close>
  fails, and the parser fails with the same error.
\<close>

theorem range_clause_spec:
  assumes "Contains (TrimSpace p) ''-''"
  shows
    "(\<forall>start endNum.
        map (Atoi \<circ> TrimSpace) (Split (TrimSpace p) (CHR ''-'')) = [Some start, Some endNum] \<and>
        1 \<le> start \<and> start \<le> endNum \<and> endNum \<le> int (length deps) \<longrightarrow>
        parseRange (TrimSpace p) deps =
          Inr (map (\<lambda>pos. deps ! (pos - 1)) [nat start ..< Suc (nat endNum)]) \<and>
        ParseSelection_loop (p # parts) deps selected =
          ParseSelection_loop parts deps
            (selected @ map (\<lambda>pos. deps ! (pos - 1)) [nat start ..< Suc (nat endNum)])) \<and>
     (\<not> (\<exists>start endNum.
        map (Atoi \<circ> TrimSpace) (Split (TrimSpace p) (CHR ''-'')) = [Some start, Some endNum] \<and>
        1 \<le> start \<and> start \<le> endNum \<and> endNum \<le> int (length deps)) \<longrightarrow>
        (\<exists>err. parseRange (TrimSpace p) deps = Inl err \<and>
               ParseSelection_loop (p # parts) deps selected = Inl err))"
proof -
  have clause: "ParseSelection_loop (p # parts) deps selected =
      (case parseRange (TrimSpace p) deps of
         Inl err \<Rightarrow> Inl err
       | Inr rangeDeps \<Rightarrow> ParseSelection_loop parts deps (selected @ rangeDeps))"
    using assms by simp
  show ?thesis
  proof (intro conjI allI impI)
    fix start endNum
    assume h: "map (Atoi \<circ> TrimSpace) (Split (TrimSpace p) (CHR ''-'')) = [Some start, Some endNum] \<and>
        1 \<le> start \<and> start \<le> endNum \<and> endNum \<le> int (length deps)"
    then obtain a b where ab: "Split (TrimSpace p) (CHR ''-'') = [a, b]"
      and s: "Atoi (TrimSpace a) = Some start" and e: "Atoi (TrimSpace b) = Some endNum"
      by auto
    from h show r: "parseRange (TrimSpace p) deps =
        Inr (map (\<lambda>pos. deps ! (pos - 1)) [nat start ..< Suc (nat endNum)])"
      by (simp add: parseRange_two_tokens [OF ab s e])
    show "ParseSelection_loop (p # parts) deps selected =
        ParseSelection_loop parts deps
          (selected @ map (\<lambda>pos. deps ! (pos - 1)) [nat start ..< Suc (nat endNum)])"
      by (simp only: clause r sum.case)
  next
    assume n: "\<not> (\<exists>start endNum.
        map (Atoi \<circ> TrimSpace) (Split (TrimSpace p) (CHR ''-'')) = [Some start, Some endNum] \<and>
        1 \<le> start \<and> start \<le> endNum \<and> endNum \<le> int (length deps))"
    have "\<exists>err. parseRange (TrimSpace p) deps = Inl err"
      using n parseRange_Inr_valid [of "TrimSpace p" deps]
      by (cases "parseRange (TrimSpace p) deps") auto
    then obtain err where e: "parseRange (TrimSpace p) deps = Inl err" ..
    have "ParseSelection_loop (p # parts) deps selected = Inl err"
      by (simp only: clause e sum.case)
    with e show "\<exists>err. parseRange (TrimSpace p) deps = Inl err \<and>
        ParseSelection_loop (p # parts) deps selected = Inl err"
      by blast
  qed
qed


theorem range_clause_spec_witness:
  "Contains (TrimSpace ''1-2'') ''-'' \<and>
   ParseSelection_loop [''1-2''] [testDep ''a'', testDep ''b'', testDep ''c''] [] =
     Inr [testDep ''a'', testDep ''b''] \<and>
   Contains (TrimSpace ''3-1'') ''-'' \<and>
   ParseSelection_loop [''3-1''] [testDep ''a'', testDep ''b'', testDep ''c''] [] =
     Inl (RangeOutOfBounds 3 1 3)"
proof -
  let ?deps = "[testDep ''a'', testDep ''b'', testDep ''c'']"
  have c1: "Contains (TrimSpace ''1-2'') ''-''" by code_simp
  have t1: "map (Atoi \<circ> TrimSpace) (Split (TrimSpace ''1-2'') (CHR ''-'')) = [Some 1, Some 2]"
    by code_simp
  have "ParseSelection_loop [''1-2''] ?deps [] =
      ParseSelection_loop [] ?deps ([] @ map (\<lambda>pos. ?deps ! (pos - 1)) [nat 1 ..< Suc (nat 2)])"
    using range_clause_spec [OF c1, where deps = ?deps and parts = "[]" and selected = "[]"] t1
    by simp
  also have "\<dots> = Inr [testDep ''a'', testDep ''b'']"
    by code_simp
  finally have ok: "ParseSelection_loop [''1-2''] ?deps [] = Inr [testDep ''a'', testDep ''b'']" .
  have c2: "Contains (TrimSpace ''3-1'') ''-''" by code_simp
  have t2: "map (Atoi \<circ> TrimSpace) (Split (TrimSpace ''3-1'') (CHR ''-'')) = [Some 3, Some 1]"
    by code_simp
  have "\<not> (\<exists>start endNum.
        map (Atoi \<circ> TrimSpace) (Split (TrimSpace ''3-1'') (CHR ''-'')) = [Some start, Some endNum] \<and>
        1 \<le> start \<and> start \<le> endNum \<and> endNum \<le> int (length ?deps))"
    by (simp add: t2)
  with range_clause_spec [OF c2, where deps = ?deps and parts = "[]" and selected = "[]"]
  obtain err where e: "parseRange (TrimSpace ''3-1'') ?deps = Inl err"
    and l: "ParseSelection_loop [''3-1''] ?deps [] = Inl err"
    by blast
  have "parseRange (TrimSpace ''3-1'') ?deps = Inl (RangeOutOfBounds 3 1 3)"
    by code_simp
  with e l have bad: "ParseSelection_loop [''3-1''] ?deps [] = Inl (RangeOutOfBounds 3 1 3)"
    by simp
  from c1 ok c2 bad show ?thesis by blast
qed

lemma Select_loop_read_failure:
  "Select_loop (Inl err # inputs) confirms calls deps =
     Some (\<lparr>Selected = [], Cancelled = False, Error = Some (ReadingInput err)\<rparr>,
           \<lparr>ui_inputs = inputs, ui_confirms = confirms,
              ui_calls = calls @ [UI_ReadInput ''Select dependencies to update'']\<rparr>)"
  by simp

lemma Select_loop_empty_line:
  "TrimSpace blank = [] \<Longrightarrow>
   Select_loop (Inr blank # inputs) confirms calls deps =
     Some (\<lparr>Selected = [], Cancelled = True, Error = None\<rparr>,
           \<lparr>ui_inputs = inputs, ui_confirms = confirms,
              ui_calls = calls @ [UI_ReadInput ''Select dependencies to update'']\<rparr>)"
  by simp

lemma Select_loop_parse_error:
  "TrimSpace line \<noteq> [] \<Longrightarrow> ParseSelection (TrimSpace line) deps = Inl perr \<Longrightarrow>
   Select_loop (Inr line # inputs) confirms calls deps =
     Select_loop inputs confirms
       (calls @ [UI_ReadInput ''Select dependencies to update'',
                 UI_Error ''Invalid selection: %v'' [ArgErr perr]]) deps"
  by simp

lemma Select_loop_only_parse_errors:
  "\<forall>l\<in>set lines. TrimSpace l \<noteq> [] \<and> isl (ParseSelection (TrimSpace l) deps) \<Longrightarrow>
   Select_loop (map Inr lines) confirms calls deps = None"
proof (induction lines arbitrary: calls)
  case Nil
  then show ?case by simp
next
  case (Cons l lines)
  from Cons.prems obtain perr where
    l: "TrimSpace l \<noteq> []" "ParseSelection (TrimSpace l) deps = Inl perr"
    by (cases "ParseSelection (TrimSpace l) deps") auto
  have "Select_loop (map Inr (l # lines)) confirms calls deps =
      Select_loop (map Inr lines) confirms
        (calls @ [UI_ReadInput ''Select dependencies to update'',
                  UI_Error ''Invalid selection: %v'' [ArgErr perr]]) deps"
    using Select_loop_parse_error [OF l] by simp
  also have "\<dots> = None"
    using Cons.prems by (intro Cons.IH) simp
  finally show ?case .
qed

lemma Select_loop_empty_parse:
  "TrimSpace line \<noteq> [] \<Longrightarrow> ParseSelection (TrimSpace line) deps = Inr [] \<Longrightarrow>
   Select_loop (Inr line # inputs) confirms calls deps =
     Select_loop inputs confirms
       (calls @ [UI_ReadInput ''Select dependencies to update'',
                 UI_Error ''No dependencies matched your selection'' []]) deps"
  by simp

lemma Select_loop_confirmed:
  "TrimSpace line \<noteq> [] \<Longrightarrow> ParseSelection (TrimSpace line) deps = Inr selected \<Longrightarrow>
   selected \<noteq> [] \<Longrightarrow>
   Select_loop (Inr line # inputs) (True # answers) calls deps =
     Some (\<lparr>Selected = selected, Cancelled = False, Error = None\<rparr>,
           \<lparr>ui_inputs = inputs, ui_confirms = answers,
              ui_calls = calls @
                [UI_ReadInput ''Select dependencies to update'',
                 UI_Success ''Selected %d dependencies:'' [ArgInt (int (length selected))],
                 UI_PrintDependencies selected [],
                 UI_Confirm ''Proceed with these selected dependencies?'']\<rparr>)"
  by simp

lemma Select_loop_declined:
  "TrimSpace line \<noteq> [] \<Longrightarrow> ParseSelection (TrimSpace line) deps = Inr selected \<Longrightarrow>
   selected \<noteq> [] \<Longrightarrow>
   Select_loop (Inr line # inputs) (False # answers) calls deps =
     Select_loop inputs answers
       (calls @
          [UI_ReadInput ''Select dependencies to update'',
           UI_Success ''Selected %d dependencies:'' [ArgInt (int (length selected))],
           UI_PrintDependencies selected [],
           UI_Confirm ''Proceed with these selected dependencies?'',
           UI_Info ''Let's try again...'' []]) deps"
  by simp

lemma Select_loop_no_answer:
  "TrimSpace line \<noteq> [] \<Longrightarrow> ParseSelection (TrimSpace line) deps = Inr selected \<Longrightarrow>
   selected \<noteq> [] \<Longrightarrow> Select_loop (Inr line # inputs) [] calls deps = None"
  by simp

lemma Select_loop_trace:
  "Select_loop script confirms calls deps = Some (res, ui') \<Longrightarrow>
   \<exists>lines r declined.
     script = map Inr lines @ r # ui_inputs ui' \<and>
     (\<forall>l\<in>set lines. TrimSpace l \<noteq> []) \<and> (\<forall>c\<in>set declined. \<not> c) \<and>
     ((\<exists>err. r = Inl err \<and>
          res = \<lparr>Selected = [], Cancelled = False, Error = Some (ReadingInput err)\<rparr> \<and>
          confirms = declined @ ui_confirms ui') \<or>
      (\<exists>blank. r = Inr blank \<and> TrimSpace blank = [] \<and>
          res = \<lparr>Selected = [], Cancelled = True, Error = None\<rparr> \<and>
          confirms = declined @ ui_confirms ui') \<or>
      (\<exists>line selected. r = Inr line \<and> TrimSpace line \<noteq> [] \<and>
          ParseSelection (TrimSpace line) deps = Inr selected \<and> selected \<noteq> [] \<and>
          res = \<lparr>Selected = selected, Cancelled = False, Error = None\<rparr> \<and>
          confirms = declined @ True # ui_confirms ui'))"
proof (induction script arbitrary: confirms calls)
  case Nil
  then show ?case by simp
next
  case (Cons r0 script)
  let ?ends = "\<lambda>r cs declined.
      (\<exists>err. r = Inl err \<and>
          res = \<lparr>Selected = [], Cancelled = False, Error = Some (ReadingInput err)\<rparr> \<and>
          cs = declined @ ui_confirms ui') \<or>
      (\<exists>blank. r = Inr blank \<and> TrimSpace blank = [] \<and>
          res = \<lparr>Selected = [], Cancelled = True, Error = None\<rparr> \<and>
          cs = declined @ ui_confirms ui') \<or>
      (\<exists>line selected. r = Inr line \<and> TrimSpace line \<noteq> [] \<and>
          ParseSelection (TrimSpace line) deps = Inr selected \<and> selected \<noteq> [] \<and>
          res = \<lparr>Selected = selected, Cancelled = False, Error = None\<rparr> \<and>
          cs = declined @ True # ui_confirms ui')"
  have now: "?ends r0 confirms [] \<Longrightarrow> script = ui_inputs ui' \<Longrightarrow> ?case"
  proof -
    assume e: "?ends r0 confirms []" and s: "script = ui_inputs ui'"
    show ?case
      apply (rule exI [of _ "[]"], rule exI [of _ r0], rule exI [of _ "[]"])
      using e s by simp
  qed
  have later: "?case"
    if line: "r0 = Inr line" "TrimSpace line \<noteq> []"
      and rest: "Select_loop script cs calls' deps = Some (res, ui')"
      and cs: "confirms = ds @ cs" "\<forall>c\<in>set ds. \<not> c"
    for line cs calls' ds
  proof -
    from Cons.IH [OF rest] obtain lines r declined where
      ih: "script = map Inr lines @ r # ui_inputs ui'"
        "\<forall>l\<in>set lines. TrimSpace l \<noteq> []" "\<forall>c\<in>set declined. \<not> c"
        "?ends r cs declined"
      by blast
    have e: "?ends r confirms (ds @ declined)"
      using ih(4) cs(1) by auto
    show ?case
      apply (rule exI [of _ "line # lines"], rule exI [of _ r], rule exI [of _ "ds @ declined"])
      using ih(1,2,3) line cs(2) e by auto
  qed
  show ?case
  proof (cases r0)
    case (Inl err)
    with Cons.prems show ?thesis by (intro now) auto
  next
    case (Inr line)
    show ?thesis
    proof (cases "TrimSpace line = []")
      case True
      with Cons.prems Inr show ?thesis by (intro now) auto
    next
      case False
      show ?thesis
      proof (cases "ParseSelection (TrimSpace line) deps")
        case (Inl perr)
        from Cons.prems Inr False Inl obtain calls' where
          "Select_loop script confirms calls' deps = Some (res, ui')" by auto
        then show ?thesis using Inr False by (intro later [where ds = "[]"]) simp_all
      next
        case sel: (Inr selected)
        show ?thesis
        proof (cases "selected = []")
          case True
          from Cons.prems Inr False sel True obtain calls' where
            "Select_loop script confirms calls' deps = Some (res, ui')" by auto
          then show ?thesis using Inr False by (intro later [where ds = "[]"]) simp_all
        next
          case nonempty: False
          show ?thesis
          proof (cases confirms)
            case Nil
            with Cons.prems Inr False sel nonempty show ?thesis by simp
          next
            case answers: (Cons c cs)
            show ?thesis
            proof (cases c)
              case True
              from Cons.prems Inr False sel nonempty answers True
              have "res = \<lparr>Selected = selected, Cancelled = False, Error = None\<rparr>"
                and "script = ui_inputs ui'" and "cs = ui_confirms ui'"
                by auto
              with Inr False sel nonempty answers True show ?thesis
                by (intro now) auto
            next
              case no: False
              from Cons.prems Inr False sel nonempty answers no obtain calls' where
                "Select_loop script cs calls' deps = Some (res, ui')" by auto
              then show ?thesis using Inr False answers no
                by (intro later [where ds = "[False]"]) simp_all
            qed
          qed
        qed
      qed
    qed
  qed
qed


text \<open>
  Claim C7, as the code has it. The selection loop ends in exactly three ways. A failure
  to read the input ends it with a result that carries the error (wrapped as
  \<open>ReadingInput\<close>), not cancelled and with no selection. A line that is empty after
  trimming ends it with a cancelled result, without error and without selection. A line
  that parses to a non-empty selection which the user confirms ends it with that
  selection. Nothing else ends it: a line that does not parse is reported and the loop
  reads the next line (so a script of such lines alone never produces a result), and a
  declined confirmation sends the loop back to reading. Whenever the loop returns, the
  last line it read is one of the three endings above and the result is the one that
  ending gives; every line read before it was non-empty, and every answer given before
  it was a refusal.
\<close>

theorem Select_loop_exits:
  "Select_loop (Inl err # inputs) confirms calls deps =
     Some (\<lparr>Selected = [], Cancelled = False, Error = Some (ReadingInput err)\<rparr>,
           \<lparr>ui_inputs = inputs, ui_confirms = confirms,
              ui_calls = calls @ [UI_ReadInput ''Select dependencies to update'']\<rparr>) \<and>
   (TrimSpace blank = [] \<longrightarrow>
      Select_loop (Inr blank # inputs) confirms calls deps =
        Some (\<lparr>Selected = [], Cancelled = True, Error = None\<rparr>,
              \<lparr>ui_inputs = inputs, ui_confirms = confirms,
                 ui_calls = calls @ [UI_ReadInput ''Select dependencies to update'']\<rparr>)) \<and>
   (TrimSpace line \<noteq> [] \<and> ParseSelection (TrimSpace line) deps = Inl perr \<longrightarrow>
      Select_loop (Inr line # inputs) confirms calls deps =
        Select_loop inputs confirms
          (calls @ [UI_ReadInput ''Select dependencies to update'',
                    UI_Error ''Invalid selection: %v'' [ArgErr perr]]) deps) \<and>
   ((\<forall>l\<in>set lines. TrimSpace l \<noteq> [] \<and> isl (ParseSelection (TrimSpace l) deps)) \<longrightarrow>
      Select_loop (map Inr lines) confirms calls deps = None) \<and>
   (TrimSpace choice \<noteq> [] \<and> ParseSelection (TrimSpace choice) deps = Inr selected \<and>
    selected \<noteq> [] \<longrightarrow>
      Select_loop (Inr choice # inputs) (True # answers) calls deps =
        Some (\<lparr>Selected = selected, Cancelled = False, Error = None\<rparr>,
              \<lparr>ui_inputs = inputs, ui_confirms = answers,
                 ui_calls = calls @
                   [UI_ReadInput ''Select dependencies to update'',
                    UI_Success ''Selected %d dependencies:'' [ArgInt (int (length selected))],
                    UI_PrintDependencies selected [],
                    UI_Confirm ''Proceed with these selected dependencies?'']\<rparr>) \<and>
      Select_loop (Inr choice # inputs) (False # answers) calls deps =
        Select_loop inputs answers
          (calls @
             [UI_ReadInput ''Select dependencies to update'',
              UI_Success ''Selected %d dependencies:'' [ArgInt (int (length selected))],
              UI_PrintDependencies selected [],
              UI_Confirm ''Proceed with these selected dependencies?'',
              UI_Info ''Let's try again...'' []]) deps) \<and>
   (Select_loop script confirms calls deps = Some (res, ui') \<longrightarrow>
      (\<exists>before r declined.
         script = map Inr before @ r # ui_inputs ui' \<and>
         (\<forall>l\<in>set before. TrimSpace l \<noteq> []) \<and> (\<forall>c\<in>set declined. \<not> c) \<and>
         ((\<exists>e. r = Inl e \<and>
              res = \<lparr>Selected = [], Cancelled = False, Error = Some (ReadingInput e)\<rparr> \<and>
              confirms = declined @ ui_confirms ui') \<or>
          (\<exists>b. r = Inr b \<and> TrimSpace b = [] \<and>
              res = \<lparr>Selected = [], Cancelled = True, Error = None\<rparr> \<and>
              confirms = declined @ ui_confirms ui') \<or>
          (\<exists>l sel. r = Inr l \<and> TrimSpace l \<noteq> [] \<and>
              ParseSelection (TrimSpace l) deps = Inr sel \<and> sel \<noteq> [] \<and>
              res = \<lparr>Selected = sel, Cancelled = False, Error = None\<rparr> \<and>
              confirms = declined @ True # ui_confirms ui'))))"
proof (intro conjI impI)
  show "Select_loop (Inl err # inputs) confirms calls deps =
     Some (\<lparr>Selected = [], Cancelled = False, Error = Some (ReadingInput err)\<rparr>,
           \<lparr>ui_inputs = inputs, ui_confirms = confirms,
              ui_calls = calls @ [UI_ReadInput ''Select dependencies to update'']\<rparr>)"
    by (rule Select_loop_read_failure)
next
  assume "TrimSpace blank = []"
  then show "Select_loop (Inr blank # inputs) confirms calls deps =
        Some (\<lparr>Selected = [], Cancelled = True, Error = None\<rparr>,
              \<lparr>ui_inputs = inputs, ui_confirms = confirms,
                 ui_calls = calls @ [UI_ReadInput ''Select dependencies to update'']\<rparr>)"
    by (rule Select_loop_empty_line)
next
  assume "TrimSpace line \<noteq> [] \<and> ParseSelection (TrimSpace line) deps = Inl perr"
  then show "Select_loop (Inr line # inputs) confirms calls deps =
        Select_loop inputs confirms
          (calls @ [UI_ReadInput ''Select dependencies to update'',
                    UI_Error ''Invalid selection: %v'' [ArgErr perr]]) deps"
    using Select_loop_parse_error by blast
next
  assume "\<forall>l\<in>set lines. TrimSpace l \<noteq> [] \<and> isl (ParseSelection (TrimSpace l) deps)"
  then show "Select_loop (map Inr lines) confirms calls deps = None"
    by (rule Select_loop_only_parse_errors)
next
  assume h: "TrimSpace choice \<noteq> [] \<and> ParseSelection (TrimSpace choice) deps = Inr selected \<and>
    selected \<noteq> []"
  then show "Select_loop (Inr choice # inputs) (True # answers) calls deps =
        Some (\<lparr>Selected = selected, Cancelled = False, Error = None\<rparr>,
              \<lparr>ui_inputs = inputs, ui_confirms = answers,
                 ui_calls = calls @
                   [UI_ReadInput ''Select dependencies to update'',
                    UI_Success ''Selected %d dependencies:'' [ArgInt (int (length selected))],
                    UI_PrintDependencies selected [],
                    UI_Confirm ''Proceed with these selected dependencies?'']\<rparr>)"
    using Select_loop_confirmed by blast
  from h show "Select_loop (Inr choice # inputs) (False # answers) calls deps =
        Select_loop inputs answers
          (calls @
             [UI_ReadInput ''Select dependencies to update'',
              UI_Success ''Selected %d dependencies:'' [ArgInt (int (length selected))],
              UI_PrintDependencies selected [],
              UI_Confirm ''Proceed with these selected dependencies?'',
              UI_Info ''Let's try again...'' []]) deps"
    using Select_loop_declined by blast
next
  assume "Select_loop script confirms calls deps = Some (res, ui')"
  then show "\<exists>before r declined.
         script = map Inr before @ r # ui_inputs ui' \<and>
         (\<forall>l\<in>set before. TrimSpace l \<noteq> []) \<and> (\<forall>c\<in>set declined. \<not> c) \<and>
         ((\<exists>e. r = Inl e \<and>
              res = \<lparr>Selected = [], Cancelled = False, Error = Some (ReadingInput e)\<rparr> \<and>
              confirms = declined @ ui_confirms ui') \<or>
          (\<exists>b. r = Inr b \<and> TrimSpace b = [] \<and>
              res = \<lparr>Selected = [], Cancelled = True, Error = None\<rparr> \<and>
              confirms = declined @ ui_confirms ui') \<or>
          (\<exists>l sel. r = Inr l \<and> TrimSpace l \<noteq> [] \<and>
              ParseSelection (TrimSpace l) deps = Inr sel \<and> sel \<noteq> [] \<and>
              res = \<lparr>Selected = sel, Cancelled = False, Error = None\<rparr> \<and>
              confirms = declined @ True # ui_confirms ui'))"
    by (rule Select_loop_trace)
qed

theorem Select_loop_exits_witness:
  "TrimSpace ''  '' = [] \<and>
   Select_loop [Inr ''  ''] [False, True] [] [testDep ''a''] =
     Some (\<lparr>Selected = [], Cancelled = True, Error = None\<rparr>,
           \<lparr>ui_inputs = [], ui_confirms = [False, True],
              ui_calls = [UI_ReadInput ''Select dependencies to update'']\<rparr>) \<and>
   Select_loop [Inl (InputFailure ''EOF'')] [False, True] [] [testDep ''a''] =
     Some (\<lparr>Selected = [], Cancelled = False, Error = Some (ReadingInput (InputFailure ''EOF''))\<rparr>,
           \<lparr>ui_inputs = [], ui_confirms = [False, True],
              ui_calls = [UI_ReadInput ''Select dependencies to update'']\<rparr>) \<and>
   TrimSpace ''7'' \<noteq> [] \<and>
   ParseSelection (TrimSpace ''7'') [testDep ''a''] = Inl (NumberOutOfRange 7 1) \<and>
   Select_loop [Inr ''7''] [False, True] [] [testDep ''a''] =
     Select_loop [] [False, True]
       [UI_ReadInput ''Select dependencies to update'',
        UI_Error ''Invalid selection: %v'' [ArgErr (NumberOutOfRange 7 1)]] [testDep ''a''] \<and>
   TrimSpace ''2-1'' \<noteq> [] \<and>
   isl (ParseSelection (TrimSpace ''2-1'') [testDep ''a'']) \<and>
   Select_loop (map Inr [''7'', ''2-1'']) [False, True] [] [testDep ''a''] = None \<and>
   TrimSpace ''1'' \<noteq> [] \<and>
   ParseSelection (TrimSpace ''1'') [testDep ''a''] = Inr [testDep ''a''] \<and>
   Select_loop [Inr ''1''] [True, True] [] [testDep ''a''] =
     Some (\<lparr>Selected = [testDep ''a''], Cancelled = False, Error = None\<rparr>,
           \<lparr>ui_inputs = [], ui_confirms = [True],
              ui_calls = [UI_ReadInput ''Select dependencies to update'',
                          UI_Success ''Selected %d dependencies:'' [ArgInt 1],
                          UI_PrintDependencies [testDep ''a''] [],
                          UI_Confirm ''Proceed with these selected dependencies?'']\<rparr>) \<and>
   Select_loop [Inr ''1''] [False, True] [] [testDep ''a''] =
     Select_loop [] [True]
       [UI_ReadInput ''Select dependencies to update'',
        UI_Success ''Selected %d dependencies:'' [ArgInt 1],
        UI_PrintDependencies [testDep ''a''] [],
        UI_Confirm ''Proceed with these selected dependencies?'',
        UI_Info ''Let's try again...'' []] [testDep ''a''] \<and>
   (\<exists>before l declined.
      [Inr ''7'', Inr ''1'', Inr ''1''] = map Inr before @ [Inr l] \<and>
      ParseSelection (TrimSpace l) [testDep ''a''] = Inr [testDep ''a''] \<and>
      [False, True] = declined @ [True])"
proof -
  let ?deps = "[testDep ''a'']"
  let ?res = "\<lparr>Selected = [testDep ''a''], Cancelled = False, Error = None\<rparr>"
  let ?ui = "\<lparr>ui_inputs = [], ui_confirms = [],
       ui_calls = [UI_ReadInput ''Select dependencies to update'',
                   UI_Error ''Invalid selection: %v'' [ArgErr (NumberOutOfRange 7 1)],
                   UI_ReadInput ''Select dependencies to update'',
                   UI_Success ''Selected %d dependencies:'' [ArgInt 1],
                   UI_PrintDependencies [testDep ''a''] [],
                   UI_Confirm ''Proceed with these selected dependencies?'',
                   UI_Info ''Let's try again...'' [],
                   UI_ReadInput ''Select dependencies to update'',
                   UI_Success ''Selected %d dependencies:'' [ArgInt 1],
                   UI_PrintDependencies [testDep ''a''] [],
                   UI_Confirm ''Proceed with these selected dependencies?'']\<rparr>"
  have blank: "TrimSpace ''  '' = []" by code_simp
  have line: "TrimSpace ''7'' \<noteq> []" by code_simp
  have perr: "ParseSelection (TrimSpace ''7'') ?deps = Inl (NumberOutOfRange 7 1)" by code_simp
  have l2: "TrimSpace ''2-1'' \<noteq> []" by code_simp
  have p2: "isl (ParseSelection (TrimSpace ''2-1'') ?deps)" by code_simp
  have lines: "\<forall>l\<in>set [''7'', ''2-1'']. TrimSpace l \<noteq> [] \<and> isl (ParseSelection (TrimSpace l) ?deps)"
    using line perr l2 p2 by simp
  have choice: "TrimSpace ''1'' \<noteq> []" by code_simp
  have sel: "ParseSelection (TrimSpace ''1'') ?deps = Inr ?deps" by code_simp
  have run: "Select_loop [Inr ''7'', Inr ''1'', Inr ''1''] [False, True] [] ?deps = Some (?res, ?ui)"
    by code_simp
  note inst = Select_loop_exits [where err = "InputFailure ''EOF''" and blank = "''  ''"
      and line = "''7''" and inputs = "[]" and confirms = "[False, True]" and calls = "[]"
      and deps = ?deps and perr = "NumberOutOfRange 7 1" and lines = "[''7'', ''2-1'']"
      and choice = "''1''" and selected = ?deps and answers = "[True]"
      and script = "[Inr ''7'', Inr ''1'', Inr ''1'']" and res = ?res and ui' = ?ui]
  from inst run obtain before r declined where
    tr: "[Inr ''7'', Inr ''1'', Inr ''1''] = map Inr before @ r # ui_inputs ?ui"
      "(\<exists>e. r = Inl e \<and>
          ?res = \<lparr>Selected = [], Cancelled = False, Error = Some (ReadingInput e)\<rparr> \<and>
          [False, True] = declined @ ui_confirms ?ui) \<or>
       (\<exists>b. r = Inr b \<and> TrimSpace b = [] \<and>
          ?res = \<lparr>Selected = [], Cancelled = True, Error = None\<rparr> \<and>
          [False, True] = declined @ ui_confirms ?ui) \<or>
       (\<exists>l sel. r = Inr l \<and> TrimSpace l \<noteq> [] \<and>
          ParseSelection (TrimSpace l) ?deps = Inr sel \<and> sel \<noteq> [] \<and>
          ?res = \<lparr>Selected = sel, Cancelled = False, Error = None\<rparr> \<and>
          [False, True] = declined @ True # ui_confirms ?ui)"
    by blast
  from tr(2) obtain l where
    l: "r = Inr l" "ParseSelection (TrimSpace l) ?deps = Inr ?deps" "[False, True] = declined @ [True]"
    by auto
  have last: "\<exists>before l declined.
      [Inr ''7'', Inr ''1'', Inr ''1''] = map Inr before @ [Inr l] \<and>
      ParseSelection (TrimSpace l) ?deps = Inr ?deps \<and>
      [False, True] = declined @ [True]"
    using tr(1) l
    apply -
    apply (rule exI [of _ before], rule exI [of _ l], rule exI [of _ declined])
    apply auto
    done
  from inst blank line perr l2 p2 lines choice sel last show ?thesis by simp
qed

text \<open>
  The loop also ends when a selection is confirmed: on the line \<open>1\<close> and the answer
  yes it returns the selected record, a result that is neither cancelled nor failed.
\<close>

theorem Select_loop_accepted_counterexample:
  "Select_loop [Inr ''1''] [True] [] [testDep ''a''] =
     Some (\<lparr>Selected = [testDep ''a''], Cancelled = False, Error = None\<rparr>,
           \<lparr>ui_inputs = [], ui_confirms = [],
              ui_calls = [UI_ReadInput ''Select dependencies to update'',
                          UI_Success ''Selected %d dependencies:'' [ArgInt 1],
                          UI_PrintDependencies [testDep ''a''] [],
                          UI_Confirm ''Proceed with these selected dependencies?'']\<rparr>)"
  by code_simp

text \<open>
  Claim C9. Called with no dependencies, \<open>Select\<close> returns at once an empty selection
  that is neither cancelled nor failed, and leaves the user interface as it was: nothing
  is displayed and no input is read.
\<close>

theorem Select_empty_deps:
  "Select [] includeIndirect ui = Some (\<lparr>Selected = [], Cancelled = False, Error = None\<rparr>, ui)"
  by (simp add: Select_def)

lemma matchPattern_loop_matched:
  "fst (matchPattern_loop pattern deps selected matched) \<longleftrightarrow>
     matched \<or> (\<exists>d\<in>set deps. matchesPattern (ToLower (Path d)) pattern \<and>
                  \<not> containsDependency selected d)"
proof (induction deps arbitrary: selected matched)
  case Nil
  then show ?case by simp
next
  case (Cons d deps)
  show ?case
  proof (cases "matchesPattern (ToLower (Path d)) pattern \<and> \<not> containsDependency selected d")
    case True
    then have "matchPattern_loop pattern (d # deps) selected matched =
        matchPattern_loop pattern deps (selected @ [d]) True" by simp
    with True show ?thesis by (simp add: Cons.IH)
  next
    case False
    then have "matchPattern_loop pattern (d # deps) selected matched =
        matchPattern_loop pattern deps selected matched" by auto
    with False show ?thesis by (auto simp: Cons.IH)
  qed
qed

lemma matchPattern_matched_iff:
  "fst (matchPattern pattern deps selected) \<longleftrightarrow>
     (\<exists>d\<in>set deps. matchesPattern (ToLower (Path d)) pattern \<and> \<not> containsDependency selected d)"
  by (simp add: matchPattern_def matchPattern_loop_matched)

text \<open>
  Claim C1 says that the parsed selection never holds two records with the same path.
  Index and pattern clauses ask \<open>containsDependency\<close> before they append (lemma
  \<open>ParseSelection_loop_distinct_without_ranges\<close>); a range clause appends its records
  without asking. On the input \<open>1,1-2\<close> over two records the record at position 1 is
  selected twice.
\<close>

theorem ParseSelection_range_repeats_record:
  "ParseSelection ''1,1-2'' [testDep ''a'', testDep ''b''] =
     Inr [testDep ''a'', testDep ''a'', testDep ''b'']"
  by code_simp

text \<open>
  Claim C2 says that a pattern clause fails exactly when no record matches the pattern.
  \<open>matchPattern\<close> sets its flag only when it appends a record, so the clause succeeds
  exactly when a matching record is not selected yet (lemma \<open>matchPattern_matched_iff\<close>).
  On the input \<open>1,a\<close> the pattern \<open>a\<close> matches the record with path \<open>a\<close>, which the
  clause \<open>1\<close> has selected already, and the parser reports that no dependency matches.
\<close>

theorem pattern_clause_rejects_selected_match:
  "matchesPattern (ToLower (Path (testDep ''a''))) ''a'' \<and>
   ParseSelection ''1,a'' [testDep ''a'', testDep ''b''] = Inl (NoMatch ''a'')"
  by code_simp

end
